theory Spec2Isabelle
  imports Complex_Main
begin

section \<open>String primitives of the runtime\<close>

text \<open>
  \<^verbatim>\<open>String.prototype.split\<close> with a one-character separator: the pieces between
  the separators, so that a string without the separator (also the empty string) gives
  exactly one piece.
\<close>

fun js_split :: "char \<Rightarrow> string \<Rightarrow> string list" where
  "js_split sep [] = [[]]"
| "js_split sep (c # cs) =
     (if c = sep then [] # js_split sep cs
      else (c # hd (js_split sep cs)) # tl (js_split sep cs))"

text \<open>\<^verbatim>\<open>Array.prototype.join\<close>: the elements with the separator between them.\<close>

fun js_join :: "string \<Rightarrow> string list \<Rightarrow> string" where
  "js_join sep [] = []"
| "js_join sep [x] = x"
| "js_join sep (x # y # ys) = x @ sep @ js_join sep (y # ys)"

definition nl :: char where
  "nl = CHR 0x0A"

section \<open>Prompt construction (generateChangelogFromCommits, lines 76-95)\<close>

text \<open>
  A file of a detailed commit carries \<^verbatim>\<open>patch\<close>, which the commit source leaves
  undefined for binary or rename-only files. The conditional \<^verbatim>\<open>file.patch ? ... : ''\<close>
  takes the else branch for an undefined patch and for the empty string.
\<close>

record commit_file =
  patch :: "string option"

definition truthy :: "string option \<Rightarrow> bool" where
  "truthy v = (case v of None \<Rightarrow> False | Some s \<Rightarrow> s \<noteq> [])"

definition patchPreview :: "commit_file \<Rightarrow> string" where
  "patchPreview f =
     (if truthy (patch f) then
        js_join [nl] (take 5 (js_split nl (the (patch f)))) @
        (if length (js_split nl (the (patch f))) > 5 then nl # ''...'' else [])
      else [])"

definition indent20 :: string where
  "indent20 = replicate 20 CHR '' ''"

definition fileChange :: "commit_file \<Rightarrow> string" where
  "fileChange f =
     [nl] @ indent20 @ ''Preview of changes:'' @ [nl] @ indent20 @ patchPreview f @
     [nl] @ indent20"

definition fileChangeSummary :: "commit_file list \<Rightarrow> string" where
  "fileChangeSummary fs = js_join [nl] (map fileChange fs)"

text \<open>
  The commit summary built by \<^verbatim>\<open>fetchCommitsInDateRange\<close> (lines 227-232) and the
  detail object built from \<^verbatim>\<open>octokit.repos.getCommit\<close> (lines 63-73).
\<close>

record commit =
  sha :: string
  message :: string
  author :: string
  date :: string

record commitDetail =
  cd_message :: string
  link :: string
  additions :: int
  deletions :: int
  files :: "commit_file list"

definition indent16 :: string where
  "indent16 = replicate 16 CHR '' ''"

definition commitDescription :: "commitDetail \<Rightarrow> string" where
  "commitDescription c =
     [nl] @ indent16 @ ''Commit Message: '' @ cd_message c @
     [nl] @ indent16 @ ''Commit Link: '' @ link c @
     [nl] @ indent16 @ ''Modified Files:'' @
     [nl] @ indent16 @ fileChangeSummary (files c) @
     [nl] @ indent16"

definition commitDescriptions :: "commitDetail list \<Rightarrow> string" where
  "commitDescriptions cs = js_join ([nl] @ ''---'' @ [nl]) (map commitDescription cs)"

definition promptLines :: "string list" where
  \<open>promptLines =
    [''Given these detailed git commits, generate a user-friendly changelog.'',
     ''Group changes into categories like "Features", "Bug Fixes", "Improvements", etc.'',
     ''Summarize the changes that would be relevant to an end-user in a few (less than 10 TOTAL) bullet points.'',
     ''Order the changes from first to last in order of importance.'',
     [],
     ''Important guidelines:'',
     ''- output a maximum of 10 total bullet points '',
     ''- Focus on changes that affect the user experience directly'',
     ''- Exclude internal changes like version bumps, refactoring, or test updates'',
     ''- Use clear, non-technical language'',
     ''- Highlight new features, improvements, and bug fixes that users will notice'',
     ''- Mention breaking changes or important updates that require user attention'',
     ''- Keep descriptions concise but informative, don't just copy and paste the commit message'',
     ''- Include the relevant commit link with each change'',
     [],
     ''Format the response as JSON with the following structure:'',
     ''{'',
     ''    "changes": ['',
     ''    {'',
     ''        "category": "string",'',
     ''        "items": ['',
     ''            {'',
     ''                "description": "string",'',
     ''                "commitLink": "string"'',
     ''            }'',
     ''        ]'',
     ''    }'',
     ''    ]'',
     ''}'',
     [],
     ''Detailed Commit Information:'']\<close>

definition prompt :: "string \<Rightarrow> string" where
  "prompt descriptions = js_join [nl] (promptLines @ [descriptions])"

section \<open>Data model\<close>

text \<open>
  The summarizer's draft (the JSON shape requested by the prompt) and the document
  written to the store by \<^verbatim>\<open>storeChangelog\<close> (lines 160-173).
\<close>

record item =
  description :: string
  commitLink :: string

record change =
  category :: string
  items :: "item list"

record changelog_draft =
  changes :: "change list"

record bulletPoint =
  bulletPointDetails :: string
  linkToRelevantCommit :: string

record section_rec =
  heading :: string
  bulletPoints :: "bulletPoint list"

record changelogData =
  timestampOfMostRecentCommit :: string
  version :: "string option"
  title :: "string option"
  startDate :: string
  endDate :: string
  sections :: "section_rec list"

text \<open>
  An entry of the job table \<^verbatim>\<open>changelogJobs\<close>: the three object literals of lines
  196-206, 209-213 and 348-351. A field the literal does not write is \<open>None\<close>.
\<close>

record job_changelog =
  jc_id :: string
  jc_date :: int
  jc_version :: "string option"
  jc_title :: "string option"
  jc_changes :: "change list"

record job =
  status :: string
  completed :: bool
  changelog :: "job_changelog option"
  error :: "string option"

text \<open>Values thrown: the runtime's own errors and a collaborator's rejection, with its detail.\<close>

datatype exn = TypeError string | RangeError string | Rejected string

section \<open>Collaborators\<close>

text \<open>
  What the process reads from outside: the repository coordinates, the \<^verbatim>\<open>Date\<close>
  parser (\<open>None\<close> is an invalid date, whose time value is NaN), the two calls of the
  commit source, the text-generation call with the JSON parse of its answer, and the
  store's \<^verbatim>\<open>addDoc\<close>, which answers with the id of the new document.
  \<^verbatim>\<open>listCommits\<close> takes \<^verbatim>\<open>since\<close>, \<^verbatim>\<open>until\<close> and, when given,
  \<^verbatim>\<open>(per_page, page)\<close>; its answer carries the commits and the page number that the
  \<^verbatim>\<open>Link\<close> header marks \<^verbatim>\<open>rel="last"\<close>, if there is one.
\<close>

record gh_commit =
  gh_sha :: string
  gh_message :: string
  gh_author_name :: string
  gh_author_date :: string

record gh_response =
  link_last :: "int option"
  data :: "gh_commit list"

record gh_detail =
  gh_additions :: int
  gh_deletions :: int
  gh_files :: "commit_file list"

record env =
  REPO_OWNER :: string
  REPO_NAME :: string
  toTime :: "string \<Rightarrow> int option"
  listCommits :: "int option \<Rightarrow> int option \<Rightarrow> (int \<times> int) option \<Rightarrow> exn + gh_response"
  getCommit :: "string \<Rightarrow> exn + gh_detail"
  createCompletion :: "string \<Rightarrow> exn + string"
  JSON_parse :: "string \<Rightarrow> exn + changelog_draft"
  addDoc :: "changelogData \<Rightarrow> exn + string"

section \<open>generateChangelogFromCommits (lines 53-150)\<close>

definition commitLinkOf :: "env \<Rightarrow> string \<Rightarrow> string" where
  "commitLinkOf e s =
     ''https://github.com/'' @ REPO_OWNER e @ ''/'' @ REPO_NAME e @ ''/commit/'' @ s"

definition detailOf :: "env \<Rightarrow> commit \<Rightarrow> exn + commitDetail" where
  "detailOf e c =
     (case getCommit e (sha c) of
        Inl x \<Rightarrow> Inl x
      | Inr d \<Rightarrow> Inr \<lparr>cd_message = message c, link = commitLinkOf e (sha c),
                      additions = gh_additions d, deletions = gh_deletions d,
                      files = map (\<lambda>f. \<lparr>patch = patch f\<rparr>) (gh_files d)\<rparr>)"

text \<open>
  \<^verbatim>\<open>Promise.all\<close> over the commits: the details of all of them in order, or a
  rejection when one request is rejected (here the first one in list order).
\<close>

fun promiseAll :: "('a \<Rightarrow> exn + 'b) \<Rightarrow> 'a list \<Rightarrow> exn + 'b list" where
  "promiseAll f [] = Inr []"
| "promiseAll f (x # xs) =
     (case f x of
        Inl e \<Rightarrow> Inl e
      | Inr y \<Rightarrow> (case promiseAll f xs of Inl e \<Rightarrow> Inl e | Inr ys \<Rightarrow> Inr (y # ys)))"

definition generateChangelogFromCommits :: "env \<Rightarrow> commit list \<Rightarrow> exn + changelog_draft" where
  "generateChangelogFromCommits e commits =
     (case promiseAll (detailOf e) commits of
        Inl x \<Rightarrow> Inl x
      | Inr commitDetails \<Rightarrow>
          (case createCompletion e (prompt (commitDescriptions commitDetails)) of
             Inl x \<Rightarrow> Inl x
           | Inr content \<Rightarrow> JSON_parse e content))"

section \<open>storeChangelog (lines 153-182)\<close>

text \<open>
  The comparison \<^verbatim>\<open>currentDate > new Date(latest.date)\<close> compares the two time values;
  it is false as soon as one of them is NaN.
\<close>

definition date_gt :: "int option \<Rightarrow> int option \<Rightarrow> bool" where
  "date_gt a b = (case a of None \<Rightarrow> False | Some x \<Rightarrow> (case b of None \<Rightarrow> False | Some y \<Rightarrow> x > y))"

definition later :: "env \<Rightarrow> commit option \<Rightarrow> commit \<Rightarrow> commit option" where
  "later e latest current =
     (case latest of
        None \<Rightarrow> Some current
      | Some l \<Rightarrow> if date_gt (toTime e (date current)) (toTime e (date l)) then Some current
                  else Some l)"

definition mostRecentCommit :: "env \<Rightarrow> commit list \<Rightarrow> commit option" where
  "mostRecentCommit e commits = foldl (later e) None commits"

definition orNull :: "string option \<Rightarrow> string option" where
  "orNull v = (if truthy v then v else None)"

definition bulletOf :: "item \<Rightarrow> bulletPoint" where
  "bulletOf i = \<lparr>bulletPointDetails = description i, linkToRelevantCommit = commitLink i\<rparr>"

definition sectionOf :: "change \<Rightarrow> section_rec" where
  "sectionOf c = \<lparr>heading = category c, bulletPoints = map bulletOf (items c)\<rparr>"

definition changelogDataOf ::
  "env \<Rightarrow> changelog_draft \<Rightarrow> commit list \<Rightarrow> string option \<Rightarrow> string option \<Rightarrow> string \<Rightarrow> string
   \<Rightarrow> exn + changelogData" where
  "changelogDataOf e cl commits v t sd ed =
     (case mostRecentCommit e commits of
        None \<Rightarrow> Inl (TypeError ''Cannot read properties of null (reading 'date')'')
      | Some m \<Rightarrow>
          Inr \<lparr>timestampOfMostRecentCommit = date m, version = orNull v, title = orNull t,
               startDate = sd, endDate = ed, sections = map sectionOf (changes cl)\<rparr>)"

type_synonym store = "(string \<times> changelogData) list"

definition storeChangelog ::
  "env \<Rightarrow> store \<Rightarrow> changelog_draft \<Rightarrow> commit list \<Rightarrow> string option \<Rightarrow> string option \<Rightarrow> string
   \<Rightarrow> string \<Rightarrow> exn + (string \<times> store)" where
  "storeChangelog e db cl commits v t sd ed =
     (case changelogDataOf e cl commits v t sd ed of
        Inl x \<Rightarrow> Inl x
      | Inr d \<Rightarrow> (case addDoc e d of Inl x \<Rightarrow> Inl x | Inr i \<Rightarrow> Inr (i, db @ [(i, d)])))"

section \<open>fetchCommitsInDateRange (lines 218-237)\<close>

definition summaryOf :: "gh_commit \<Rightarrow> commit" where
  "summaryOf g = \<lparr>sha = gh_sha g, message = gh_message g, author = gh_author_name g,
                   date = gh_author_date g\<rparr>"

text \<open>\<^verbatim>\<open>new Date(s).toISOString()\<close> throws a RangeError for an invalid date.\<close>

definition toISOString :: "env \<Rightarrow> string \<Rightarrow> exn + int" where
  "toISOString e s =
     (case toTime e s of None \<Rightarrow> Inl (RangeError ''Invalid time value'') | Some t \<Rightarrow> Inr t)"

definition fetchCommitsInDateRange :: "env \<Rightarrow> string \<Rightarrow> string \<Rightarrow> exn + commit list" where
  "fetchCommitsInDateRange e sd ed =
     (case toISOString e sd of
        Inl x \<Rightarrow> Inl x
      | Inr since \<Rightarrow>
          (case toISOString e ed of
             Inl x \<Rightarrow> Inl x
           | Inr until \<Rightarrow>
               (case listCommits e (Some since) (Some until) None of
                  Inl x \<Rightarrow> Inl x
                | Inr response \<Rightarrow> Inr (map summaryOf (data response)))))"

section \<open>The job table and generateChangelogAsync (lines 185-215)\<close>

text \<open>
  The state of the process: the job table, the documents of the store's collection, and
  the calls of \<^verbatim>\<open>generateChangelogAsync\<close> that were started and have not settled. The
  body of that function first awaits the commit fetch, so none of its writes happens
  inside the request handler that starts it.
\<close>

record task =
  t_jobId :: string
  t_startDate :: string
  t_endDate :: string
  t_version :: "string option"
  t_title :: "string option"

record server =
  changelogJobs :: "string \<rightharpoonup> job"
  changelogs :: store
  running :: "task list"

definition processingJob :: job where
  "processingJob = \<lparr>status = ''processing'', completed = False, changelog = None, error = None\<rparr>"

definition errorJob :: job where
  "errorJob = \<lparr>status = ''error'', completed = True, changelog = None,
                error = Some ''Failed to generate changelog''\<rparr>"

definition completedJob :: "string \<Rightarrow> int \<Rightarrow> string option \<Rightarrow> string option \<Rightarrow> changelog_draft \<Rightarrow> job" where
  "completedJob changelogId now v t cl =
     \<lparr>status = ''completed'', completed = True,
      changelog = Some \<lparr>jc_id = changelogId, jc_date = now, jc_version = v, jc_title = t,
                        jc_changes = changes cl\<rparr>,
      error = None\<rparr>"

text \<open>The try block up to line 194: the id of the stored document, the draft, the new store.\<close>

definition pipeline ::
  "env \<Rightarrow> store \<Rightarrow> string \<Rightarrow> string \<Rightarrow> string option \<Rightarrow> string option
   \<Rightarrow> exn + (string \<times> changelog_draft \<times> store)" where
  "pipeline e db sd ed v t =
     (case fetchCommitsInDateRange e sd ed of
        Inl x \<Rightarrow> Inl x
      | Inr commits \<Rightarrow>
          (case generateChangelogFromCommits e commits of
             Inl x \<Rightarrow> Inl x
           | Inr cl \<Rightarrow>
               (case storeChangelog e db cl commits v t sd ed of
                  Inl x \<Rightarrow> Inl x
                | Inr (i, db') \<Rightarrow> Inr (i, cl, db'))))"

definition generateChangelogAsync ::
  "env \<Rightarrow> int \<Rightarrow> server \<Rightarrow> string \<Rightarrow> string \<Rightarrow> string \<Rightarrow> string option \<Rightarrow> string option
   \<Rightarrow> server" where
  "generateChangelogAsync e now s jobId sd ed v t =
     (case pipeline e (changelogs s) sd ed v t of
        Inr (changelogId, cl, db') \<Rightarrow>
          s\<lparr>changelogJobs := (changelogJobs s)(jobId \<mapsto> completedJob changelogId now v t cl),
            changelogs := db'\<rparr>
      | Inl x \<Rightarrow> s\<lparr>changelogJobs := (changelogJobs s)(jobId \<mapsto> errorJob)\<rparr>)"

section \<open>Request handlers\<close>

datatype payload =
    IdBody string
  | JobBody job
  | ErrorBody string
  | CommitsBody "(commit \<times> string) list" int bool

type_synonym response = "nat \<times> payload"

text \<open>\<^verbatim>\<open>Number.prototype.toString\<close> on a time in milliseconds: its decimal digits.\<close>

definition digit :: "nat \<Rightarrow> char" where
  "digit d = ''0123456789'' ! d"

fun toString :: "nat \<Rightarrow> string" where
  "toString n = (if n < 10 then [digit n] else toString (n div 10) @ [digit (n mod 10)])"

declare toString.simps [simp del]

text \<open>
  POST /api/changelogs (lines 342-361). \<open>now\<close> is the reading of \<^verbatim>\<open>Date.now()\<close>;
  the body is \<open>None\<close> when \<^verbatim>\<open>req.body\<close> is undefined, where the destructuring throws
  and the handler answers 500.
\<close>

record body =
  b_startDate :: string
  b_endDate :: string
  b_version :: "string option"
  b_title :: "string option"

definition post_changelogs :: "server \<Rightarrow> nat \<Rightarrow> body option \<Rightarrow> server \<times> response" where
  "post_changelogs s now b =
     (case b of
        None \<Rightarrow> (s, (500, ErrorBody ''Failed to start changelog generation''))
      | Some r \<Rightarrow>
          (let jobId = toString now in
           (s\<lparr>changelogJobs := (changelogJobs s)(jobId \<mapsto> processingJob),
              running := running s @
                [\<lparr>t_jobId = jobId, t_startDate = b_startDate r, t_endDate = b_endDate r,
                  t_version = b_version r, t_title = b_title r\<rparr>]\<rparr>,
            (200, IdBody jobId))))"

text \<open>GET /api/changelogs/status/:id (lines 364-373).\<close>

definition get_status :: "server \<Rightarrow> string \<Rightarrow> server \<times> response" where
  "get_status s jobId =
     (case changelogJobs s jobId of
        None \<Rightarrow> (s, (404, ErrorBody ''Job not found''))
      | Some j \<Rightarrow> (s, (200, JobBody j)))"






section \<open>Runs of the process\<close>

text \<open>
  What happens to the state over time: a POST request arrives (with the clock reading
  at its arrival), a started background call settles (with the collaborators' behaviour
  during that call and the clock reading at its end), or a status request is answered.
\<close>

datatype event = Post nat "body option" | Settle nat env int | Status string

fun step :: "server \<Rightarrow> event \<Rightarrow> server" where
  "step s (Post now b) = fst (post_changelogs s now b)"
| "step s (Settle i e now) =
     (if i < length (running s) then
        (let t = running s ! i in
         generateChangelogAsync e now
           (s\<lparr>running := take i (running s) @ drop (Suc i) (running s)\<rparr>)
           (t_jobId t) (t_startDate t) (t_endDate t) (t_version t) (t_title t))
      else s)"
| "step s (Status jobId) = fst (get_status s jobId)"

definition boot :: "store \<Rightarrow> server" where
  "boot db = \<lparr>changelogJobs = Map.empty, changelogs = db, running = []\<rparr>"

definition run :: "store \<Rightarrow> event list \<Rightarrow> server" where
  "run db evs = foldl step (boot db) evs"

fun allocated :: "event list \<Rightarrow> string list" where
  "allocated [] = []"
| "allocated (Post now (Some b) # evs) = toString now # allocated evs"
| "allocated (ev # evs) = allocated evs"

fun clock_readings :: "event list \<Rightarrow> nat list" where
  "clock_readings [] = []"
| "clock_readings (Post now (Some b) # evs) = now # clock_readings evs"
| "clock_readings (ev # evs) = clock_readings evs"

section \<open>Sample data\<close>

text \<open>Concrete collaborators and inputs, on which the theorems below are instantiated.\<close>

definition sampleTime :: "string \<Rightarrow> int option" where
  "sampleTime s =
     (if s = ''2024-01-01'' then Some 1704067200000
      else if s = ''2024-01-05'' then Some 1704412800000
      else if s = ''2024-01-31'' then Some 1706659200000
      else None)"

definition a1 :: commit where
  "a1 = \<lparr>sha = ''a1'', message = ''Add dark mode'', author = ''ann'', date = ''2024-01-01''\<rparr>"

definition a2 :: commit where
  "a2 = \<lparr>sha = ''a2'', message = ''Fix login'', author = ''bob'', date = ''2024-01-05''\<rparr>"

definition sampleDraft :: changelog_draft where
  "sampleDraft =
     \<lparr>changes = [\<lparr>category = ''Features'',
                  items = [\<lparr>description = ''Added dark mode'',
                            commitLink = ''https://github.com/owner/repo/commit/a1''\<rparr>]\<rparr>]\<rparr>"

definition sampleEnv :: env where
  "sampleEnv =
     \<lparr>REPO_OWNER = ''owner'', REPO_NAME = ''repo'', toTime = sampleTime,
      listCommits = (\<lambda>since until paging. Inr \<lparr>link_last = Some 25, data =
         [\<lparr>gh_sha = ''a1'', gh_message = ''Add dark mode'', gh_author_name = ''ann'',
           gh_author_date = ''2024-01-01''\<rparr>,
          \<lparr>gh_sha = ''a2'', gh_message = ''Fix login'', gh_author_name = ''bob'',
           gh_author_date = ''2024-01-05''\<rparr>]\<rparr>),
      getCommit = (\<lambda>ref. Inr \<lparr>gh_additions = 3, gh_deletions = 1,
                                gh_files = [\<lparr>patch = Some ''@@ -1 +1 @@''\<rparr>]\<rparr>),
      createCompletion = (\<lambda>p. Inr ''{}''),
      JSON_parse = (\<lambda>content. Inr sampleDraft),
      addDoc = (\<lambda>d. Inr ''doc1'')\<rparr>"

definition throwingSource :: env where
  "throwingSource =
     sampleEnv\<lparr>listCommits := (\<lambda>since until paging. Inl (Rejected ''API rate limit exceeded''))\<rparr>"

definition emptyRange :: env where
  "emptyRange =
     sampleEnv\<lparr>listCommits := (\<lambda>since until paging. Inr \<lparr>link_last = None, data = []\<rparr>)\<rparr>"

definition emptyRangeNoSummary :: env where
  "emptyRangeNoSummary =
     emptyRange\<lparr>createCompletion := (\<lambda>p. Inl (Rejected ''429 Too Many Requests''))\<rparr>"

definition sampleBody :: body where
  "sampleBody = \<lparr>b_startDate = ''2024-01-01'', b_endDate = ''2024-01-31'',
                  b_version = Some ''1.2.0'', b_title = None\<rparr>"

text \<open>Reading decimal digits back, as \<^verbatim>\<open>parseInt\<close> does on a string of digits.\<close>

definition parseDigits :: "string \<Rightarrow> nat" where
  "parseDigits s = foldl (\<lambda>a c. 10 * a + (of_char c - 48)) 0 s"

text \<open>The ids in the job table and of the pending calls all lie in a set \<open>A\<close>.\<close>

definition ids_within :: "server \<Rightarrow> string set \<Rightarrow> bool" where
  "ids_within s A = (dom (changelogJobs s) \<subseteq> A \<and> t_jobId ` set (running s) \<subseteq> A)"

text \<open>
  The ids of the pending calls, and what the table holds for an id: \<open>processing\<close> while
  a call for it is pending, a terminal entry otherwise.
\<close>

definition pending_ids :: "server \<Rightarrow> string list" where
  "pending_ids s = map t_jobId (running s)"

definition accounted :: "(string \<rightharpoonup> job) \<Rightarrow> string list \<Rightarrow> string \<Rightarrow> bool" where
  "accounted m ps j =
     (if j \<in> set ps then m j = Some processingJob
      else (case m j of None \<Rightarrow> False | Some job \<Rightarrow> completed job))"

definition one_task_each :: "server \<Rightarrow> string set \<Rightarrow> bool" where
  "one_task_each s A =
     (ids_within s A \<and> distinct (pending_ids s)
      \<and> (\<forall>j \<in> A. accounted (changelogJobs s) (pending_ids s) j))"

definition sampleTask :: task where
  "sampleTask = \<lparr>t_jobId = toString 1706659200000, t_startDate = ''2024-01-01'',
                  t_endDate = ''2024-01-31'', t_version = Some ''1.2.0'', t_title = None\<rparr>"

section \<open>Properties of split and join\<close>

lemma js_split_nonempty: "js_split sep s \<noteq> []"
  by (induction s) auto





lemma js_join_split: "js_join [sep] (js_split sep s) = s"
proof (induction s)
  case Nil
  then show ?case by simp
next
  case (Cons c cs)
  obtain h t where ht: "js_split sep cs = h # t"
    using js_split_nonempty[of sep cs] by (cases "js_split sep cs") auto
  show ?case
  proof (cases "c = sep")
    case True
    with Cons ht show ?thesis by simp
  next
    case False
    with Cons ht show ?thesis by (cases t) auto
  qed
qed



section \<open>Patch previews\<close>



section \<open>Record assembly\<close>

text \<open>
  Claim C6. When \<^verbatim>\<open>storeChangelog\<close> stores a record, that record is the one appended
  to the collection under the returned id, and its sections mirror the draft: as many
  sections as the draft has, in the same order, each with the draft section's category as
  heading and, item by item in order, the description as \<open>bulletPointDetails\<close> and the
  commit link as \<open>linkToRelevantCommit\<close>.
\<close>

theorem sections_mirror_draft:
  assumes "storeChangelog e db cl commits v t sd ed = Inr (i, db')"
  shows "\<exists>d. db' = db @ [(i, d)]
     \<and> map heading (sections d) = map category (changes cl)
     \<and> map (\<lambda>s. map bulletPointDetails (bulletPoints s)) (sections d) =
         map (\<lambda>c. map description (items c)) (changes cl)
     \<and> map (\<lambda>s. map linkToRelevantCommit (bulletPoints s)) (sections d) =
         map (\<lambda>c. map commitLink (items c)) (changes cl)"
proof -
  from assms obtain d where d: "changelogDataOf e cl commits v t sd ed = Inr d"
    and db': "db' = db @ [(i, d)]"
    by (auto simp: storeChangelog_def split: sum.splits)
  from d have "sections d = map sectionOf (changes cl)"
    by (auto simp: changelogDataOf_def split: option.splits)
  then show ?thesis using db'
    by (simp add: sectionOf_def bulletOf_def comp_def)
qed

theorem sections_mirror_draft_witness:
  "storeChangelog sampleEnv [] sampleDraft [a1, a2] None None ''2024-01-01'' ''2024-01-31'' =
     Inr (''doc1'',
          [(''doc1'', \<lparr>timestampOfMostRecentCommit = ''2024-01-05'', version = None, title = None,
                      startDate = ''2024-01-01'', endDate = ''2024-01-31'',
                      sections = [\<lparr>heading = ''Features'', bulletPoints =
                        [\<lparr>bulletPointDetails = ''Added dark mode'',
                          linkToRelevantCommit = ''https://github.com/owner/repo/commit/a1''\<rparr>]\<rparr>]\<rparr>)])"
proof -
  have run: "storeChangelog sampleEnv [] sampleDraft [a1, a2] None None ''2024-01-01'' ''2024-01-31'' =
     Inr (''doc1'',
          [(''doc1'', \<lparr>timestampOfMostRecentCommit = ''2024-01-05'', version = None, title = None,
                      startDate = ''2024-01-01'', endDate = ''2024-01-31'',
                      sections = map sectionOf (changes sampleDraft)\<rparr>)])"
    by (simp add: storeChangelog_def changelogDataOf_def mostRecentCommit_def later_def
        date_gt_def sampleEnv_def sampleTime_def a1_def a2_def orNull_def truthy_def)
  from sections_mirror_draft[OF run] show ?thesis
    unfolding run by (simp add: sampleDraft_def sectionOf_def bulletOf_def)
qed

text \<open>
  The fold of lines 155-158 over a non-empty list of commits with valid dates ends on
  the first commit, in list order, whose time is the greatest.
\<close>

lemma mostRecent_first_max:
  assumes "commits \<noteq> []" and "\<forall>c \<in> set commits. toTime e (date c) \<noteq> None"
  shows "\<exists>m k tm. mostRecentCommit e commits = Some m \<and> k < length commits \<and> commits ! k = m \<and>
           toTime e (date m) = Some tm \<and>
           (\<forall>j < k. \<exists>tj. toTime e (date (commits ! j)) = Some tj \<and> tj < tm) \<and>
           (\<forall>j < length commits. \<exists>tj. toTime e (date (commits ! j)) = Some tj \<and> tj \<le> tm)"
  using assms
proof (induction commits rule: rev_nonempty_induct)
  case (single x)
  then show ?case by (auto simp: mostRecentCommit_def later_def)
next
  case (snoc x xs)
  from snoc.prems have vxs: "\<forall>c \<in> set xs. toTime e (date c) \<noteq> None" by simp
  from snoc.prems obtain tx where tx: "toTime e (date x) = Some tx" by auto
  from snoc.IH[OF vxs] obtain m k tm where
    m: "mostRecentCommit e xs = Some m" and k: "k < length xs" "xs ! k = m" and
    tm: "toTime e (date m) = Some tm" and
    before: "\<forall>j < k. \<exists>tj. toTime e (date (xs ! j)) = Some tj \<and> tj < tm" and
    all: "\<forall>j < length xs. \<exists>tj. toTime e (date (xs ! j)) = Some tj \<and> tj \<le> tm"
    by blast
  have fold: "mostRecentCommit e (xs @ [x]) = later e (Some m) x"
    using m by (simp add: mostRecentCommit_def)
  show ?case
  proof (cases "tx > tm")
    case True
    then have res: "mostRecentCommit e (xs @ [x]) = Some x"
      using fold tx tm by (simp add: later_def date_gt_def)
    have "\<forall>j < length xs. \<exists>tj. toTime e (date ((xs @ [x]) ! j)) = Some tj \<and> tj < tx"
      using all True by (fastforce simp: nth_append)
    then show ?thesis using res tx
      by (intro exI[of _ x] exI[of _ "length xs"] exI[of _ tx])
         (auto simp: nth_append less_Suc_eq intro: less_imp_le)
  next
    case False
    then have res: "mostRecentCommit e (xs @ [x]) = Some m"
      using fold tx tm by (simp add: later_def date_gt_def)
    have b: "\<forall>j < k. \<exists>tj. toTime e (date ((xs @ [x]) ! j)) = Some tj \<and> tj < tm"
      using before k by (auto simp: nth_append)
    have a: "\<forall>j < length (xs @ [x]). \<exists>tj. toTime e (date ((xs @ [x]) ! j)) = Some tj \<and> tj \<le> tm"
      using all tx False by (auto simp: nth_append less_Suc_eq)
    show ?thesis using res k tm b a
      by (intro exI[of _ m] exI[of _ k] exI[of _ tm]) (auto simp: nth_append)
  qed
qed

text \<open>
  Claim C1. For a non-empty commit set (whose dates are valid timestamps), the assembled
  record's \<open>timestampOfMostRecentCommit\<close> is the date of a commit of the set whose time
  is the maximum of the times of the set, and that commit is the first one in iteration
  order with that time: every commit before it is strictly older.
\<close>

theorem timestamp_is_first_maximum:
  assumes "commits \<noteq> []" and "\<forall>c \<in> set commits. toTime e (date c) \<noteq> None"
  shows "\<exists>d k tm. changelogDataOf e cl commits v t sd ed = Inr d
     \<and> k < length commits
     \<and> timestampOfMostRecentCommit d = date (commits ! k)
     \<and> toTime e (date (commits ! k)) = Some tm
     \<and> tm = Max ((\<lambda>c. the (toTime e (date c))) ` set commits)
     \<and> (\<forall>j < k. \<exists>tj. toTime e (date (commits ! j)) = Some tj \<and> tj < tm)"
proof -
  from mostRecent_first_max[OF assms] obtain m k tm where
    m: "mostRecentCommit e commits = Some m" and k: "k < length commits" "commits ! k = m" and
    tm: "toTime e (date m) = Some tm" and
    before: "\<forall>j < k. \<exists>tj. toTime e (date (commits ! j)) = Some tj \<and> tj < tm" and
    all: "\<forall>j < length commits. \<exists>tj. toTime e (date (commits ! j)) = Some tj \<and> tj \<le> tm"
    by blast
  let ?T = "(\<lambda>c. the (toTime e (date c))) ` set commits"
  have mem: "tm \<in> ?T"
    using k tm by (force simp: image_iff intro: nth_mem)
  have ub: "\<And>x. x \<in> ?T \<Longrightarrow> x \<le> tm"
  proof -
    fix x assume "x \<in> ?T"
    then obtain c where c: "c \<in> set commits" and x: "x = the (toTime e (date c))" by auto
    from c obtain j where "j < length commits" "commits ! j = c"
      by (auto simp: in_set_conv_nth)
    with all x show "x \<le> tm" by fastforce
  qed
  have "Max ?T = tm"
    by (rule Max_eqI) (use mem ub in auto)
  moreover have "changelogDataOf e cl commits v t sd ed =
      Inr \<lparr>timestampOfMostRecentCommit = date m, version = orNull v, title = orNull t,
           startDate = sd, endDate = ed, sections = map sectionOf (changes cl)\<rparr>"
    using m by (simp add: changelogDataOf_def)
  ultimately show ?thesis using k tm before by auto
qed

theorem timestamp_is_first_maximum_witness:
  "[a1, a2] \<noteq> [] \<and> toTime sampleEnv (date a1) \<noteq> None \<and> toTime sampleEnv (date a2) \<noteq> None
   \<and> (\<exists>d. changelogDataOf sampleEnv sampleDraft [a1, a2] None None ''2024-01-01'' ''2024-01-31'' = Inr d
          \<and> timestampOfMostRecentCommit d = ''2024-01-05'')"
proof -
  have ne: "[a1, a2] \<noteq> []" by simp
  have valid: "\<forall>c \<in> set [a1, a2]. toTime sampleEnv (date c) \<noteq> None"
    by (simp add: sampleEnv_def sampleTime_def a1_def a2_def)
  have max: "Max ((\<lambda>c. the (toTime sampleEnv (date c))) ` set [a1, a2]) = 1704412800000"
    by (simp add: sampleEnv_def sampleTime_def a1_def a2_def)
  from timestamp_is_first_maximum[OF ne valid, of sampleDraft None None "''2024-01-01''" "''2024-01-31''"]
  obtain d k tm where
    d: "changelogDataOf sampleEnv sampleDraft [a1, a2] None None ''2024-01-01'' ''2024-01-31'' = Inr d"
    and k: "k < length [a1, a2]" and ts: "timestampOfMostRecentCommit d = date ([a1, a2] ! k)"
    and tm: "toTime sampleEnv (date ([a1, a2] ! k)) = Some tm"
    and mx: "tm = Max ((\<lambda>c. the (toTime sampleEnv (date c))) ` set [a1, a2])"
    by blast
  from k have "k = 0 \<or> k = 1" by auto
  with tm mx max have "k = 1"
    by (auto simp: sampleEnv_def sampleTime_def a1_def a2_def)
  with ts have "timestampOfMostRecentCommit d = ''2024-01-05''" by (simp add: a2_def)
  with d valid show ?thesis by auto
qed

section \<open>The background job\<close>

text \<open>
  Claim C3. When the commit fetch, the summarization or the persistence fails with any
  exception \<open>x\<close>, the background job's only effect is to set the job's entry to
  \<open>{status: 'error', completed: true, error: 'Failed to generate changelog'}\<close>, and that is
  what a status request then returns: the entry is the same whatever \<open>x\<close> was, so no
  detail of the exception is in it.
\<close>

theorem failure_gives_generic_error:
  assumes "fetchCommitsInDateRange e sd ed = Inl x
     \<or> (\<exists>commits. fetchCommitsInDateRange e sd ed = Inr commits
          \<and> (generateChangelogFromCommits e commits = Inl x
             \<or> (\<exists>cl. generateChangelogFromCommits e commits = Inr cl
                   \<and> storeChangelog e (changelogs s) cl commits v t sd ed = Inl x)))"
  shows "generateChangelogAsync e now s jobId sd ed v t =
           s\<lparr>changelogJobs := (changelogJobs s)(jobId \<mapsto>
               \<lparr>status = ''error'', completed = True, changelog = None,
                error = Some ''Failed to generate changelog''\<rparr>)\<rparr>
     \<and> snd (get_status (generateChangelogAsync e now s jobId sd ed v t) jobId) =
           (200, JobBody \<lparr>status = ''error'', completed = True, changelog = None,
                          error = Some ''Failed to generate changelog''\<rparr>)"
proof -
  from assms have "pipeline e (changelogs s) sd ed v t = Inl x"
    by (auto simp: pipeline_def)
  then show ?thesis
    by (simp add: generateChangelogAsync_def errorJob_def get_status_def)
qed

theorem failure_gives_generic_error_witness:
  "fetchCommitsInDateRange throwingSource ''2024-01-01'' ''2024-01-31'' =
     Inl (Rejected ''API rate limit exceeded'')
   \<and> snd (get_status
        (generateChangelogAsync throwingSource 1706700000000
           (fst (post_changelogs (boot []) 1706659200000 (Some sampleBody)))
           (toString 1706659200000) ''2024-01-01'' ''2024-01-31'' (Some ''1.2.0'') None)
        (toString 1706659200000)) =
       (200, JobBody \<lparr>status = ''error'', completed = True, changelog = None,
                      error = Some ''Failed to generate changelog''\<rparr>)"
proof -
  have f: "fetchCommitsInDateRange throwingSource ''2024-01-01'' ''2024-01-31'' =
     Inl (Rejected ''API rate limit exceeded'')"
    by (simp add: fetchCommitsInDateRange_def toISOString_def throwingSource_def
        sampleEnv_def sampleTime_def)
  from failure_gives_generic_error[OF disjI1[OF f], THEN conjunct2] f show ?thesis by simp
qed

text \<open>
  Claim C9. When the three steps succeed, the job's entry becomes \<open>completed\<close> with a
  changelog that carries the id the store gave to the record just appended, the clock
  reading at assembly, the version and title as the caller supplied them, and the
  sections of the draft (its \<open>changes\<close>).
\<close>

theorem completed_job_carries_record:
  assumes "fetchCommitsInDateRange e sd ed = Inr commits"
    and "generateChangelogFromCommits e commits = Inr cl"
    and "storeChangelog e (changelogs s) cl commits v t sd ed = Inr (i, db')"
  shows "changelogJobs (generateChangelogAsync e now s jobId sd ed v t) jobId =
           Some \<lparr>status = ''completed'', completed = True,
                 changelog = Some \<lparr>jc_id = i, jc_date = now, jc_version = v, jc_title = t,
                                   jc_changes = changes cl\<rparr>,
                 error = None\<rparr>
     \<and> (\<exists>d. changelogs (generateChangelogAsync e now s jobId sd ed v t) = changelogs s @ [(i, d)])"
proof -
  from assms have p: "pipeline e (changelogs s) sd ed v t = Inr (i, cl, db')"
    by (simp add: pipeline_def)
  from assms(3) have "\<exists>d. db' = changelogs s @ [(i, d)]"
    by (auto simp: storeChangelog_def split: sum.splits)
  with p show ?thesis
    by (auto simp: generateChangelogAsync_def completedJob_def)
qed

lemma sample_fetch: "fetchCommitsInDateRange sampleEnv ''2024-01-01'' ''2024-01-31'' = Inr [a1, a2]"
  by (simp add: fetchCommitsInDateRange_def toISOString_def sampleEnv_def sampleTime_def
      summaryOf_def a1_def a2_def)

lemma sample_generate: "generateChangelogFromCommits sampleEnv [a1, a2] = Inr sampleDraft"
  by (simp add: generateChangelogFromCommits_def detailOf_def sampleEnv_def)

lemma sample_store:
  "\<exists>d. storeChangelog sampleEnv [] sampleDraft [a1, a2] (Some ''1.2.0'') None ''2024-01-01'' ''2024-01-31'' =
     Inr (''doc1'', [(''doc1'', d)])"
  by (simp add: storeChangelog_def changelogDataOf_def mostRecentCommit_def later_def
      sampleEnv_def)

theorem completed_job_carries_record_witness:
  "fetchCommitsInDateRange sampleEnv ''2024-01-01'' ''2024-01-31'' = Inr [a1, a2]
   \<and> generateChangelogFromCommits sampleEnv [a1, a2] = Inr sampleDraft
   \<and> changelogJobs
        (generateChangelogAsync sampleEnv 1706700000000
           (fst (post_changelogs (boot []) 1706659200000 (Some sampleBody)))
           (toString 1706659200000) ''2024-01-01'' ''2024-01-31'' (Some ''1.2.0'') None)
        (toString 1706659200000) =
       Some \<lparr>status = ''completed'', completed = True,
             changelog = Some \<lparr>jc_id = ''doc1'', jc_date = 1706700000000,
                               jc_version = Some ''1.2.0'', jc_title = None,
                               jc_changes = changes sampleDraft\<rparr>,
             error = None\<rparr>"
proof -
  let ?s = "fst (post_changelogs (boot []) 1706659200000 (Some sampleBody))"
  have db: "changelogs ?s = []"
    by (simp add: post_changelogs_def boot_def Let_def)
  from sample_store obtain d where
    st: "storeChangelog sampleEnv (changelogs ?s) sampleDraft [a1, a2] (Some ''1.2.0'') None
           ''2024-01-01'' ''2024-01-31'' = Inr (''doc1'', [(''doc1'', d)])"
    unfolding db by blast
  from completed_job_carries_record[OF sample_fetch sample_generate st]
  show ?thesis using sample_fetch sample_generate by simp
qed

section \<open>Empty commit sets\<close>

text \<open>
  Claim C10, as the code has it. When the fetched commit set is empty, record assembly
  cannot succeed: for any draft, \<^verbatim>\<open>storeChangelog\<close> throws a TypeError at the read of
  the most recent commit's date, before anything is written to the store. So the pipeline
  fails, in record assembly when the summarizer returns a draft and in the summarizer
  otherwise; the job's entry becomes \<open>{status: 'error', completed: true, error: 'Failed to
  generate changelog'}\<close> and the store keeps exactly the records it had.
\<close>

theorem empty_commit_set_ends_in_error:
  assumes "fetchCommitsInDateRange e sd ed = Inr []"
  shows "(\<forall>cl db. storeChangelog e db cl [] v t sd ed =
            Inl (TypeError ''Cannot read properties of null (reading 'date')''))
     \<and> (\<exists>x. pipeline e (changelogs s) sd ed v t = Inl x)
     \<and> (\<forall>cl. generateChangelogFromCommits e [] = Inr cl \<longrightarrow>
            pipeline e (changelogs s) sd ed v t =
              Inl (TypeError ''Cannot read properties of null (reading 'date')''))
     \<and> (\<forall>x. generateChangelogFromCommits e [] = Inl x \<longrightarrow>
            pipeline e (changelogs s) sd ed v t = Inl x)
     \<and> changelogJobs (generateChangelogAsync e now s jobId sd ed v t) jobId =
          Some \<lparr>status = ''error'', completed = True, changelog = None,
                error = Some ''Failed to generate changelog''\<rparr>
     \<and> changelogs (generateChangelogAsync e now s jobId sd ed v t) = changelogs s"
proof -
  have st: "\<And>cl db. storeChangelog e db cl [] v t sd ed =
            Inl (TypeError ''Cannot read properties of null (reading 'date')'')"
    by (simp add: storeChangelog_def changelogDataOf_def mostRecentCommit_def)
  have p: "pipeline e (changelogs s) sd ed v t =
      (case generateChangelogFromCommits e [] of
         Inl x \<Rightarrow> Inl x
       | Inr cl \<Rightarrow> Inl (TypeError ''Cannot read properties of null (reading 'date')''))"
    using assms by (simp add: pipeline_def st split: sum.splits)
  have ex: "\<exists>x. pipeline e (changelogs s) sd ed v t = Inl x"
    unfolding p by (cases "generateChangelogFromCommits e []") auto
  then obtain x where x: "pipeline e (changelogs s) sd ed v t = Inl x" ..
  have stage: "\<forall>cl. generateChangelogFromCommits e [] = Inr cl \<longrightarrow>
            pipeline e (changelogs s) sd ed v t =
              Inl (TypeError ''Cannot read properties of null (reading 'date')'')"
    unfolding p by simp
  have early: "\<forall>x. generateChangelogFromCommits e [] = Inl x \<longrightarrow>
            pipeline e (changelogs s) sd ed v t = Inl x"
    unfolding p by simp
  have job: "changelogJobs (generateChangelogAsync e now s jobId sd ed v t) jobId =
          Some \<lparr>status = ''error'', completed = True, changelog = None,
                error = Some ''Failed to generate changelog''\<rparr>"
    using x by (simp add: generateChangelogAsync_def errorJob_def)
  have db: "changelogs (generateChangelogAsync e now s jobId sd ed v t) = changelogs s"
    using x by (simp add: generateChangelogAsync_def)
  from st ex stage early job db show ?thesis by blast
qed

lemma empty_fetch: "fetchCommitsInDateRange emptyRange ''2024-01-31'' ''2024-01-01'' = Inr []"
  by (simp add: fetchCommitsInDateRange_def toISOString_def emptyRange_def
      sampleEnv_def sampleTime_def)

lemma empty_fetch_no_summary:
  "fetchCommitsInDateRange emptyRangeNoSummary ''2024-01-31'' ''2024-01-01'' = Inr []"
  by (simp add: fetchCommitsInDateRange_def toISOString_def emptyRangeNoSummary_def
      emptyRange_def sampleEnv_def sampleTime_def)

theorem empty_commit_set_ends_in_error_witness:
  "fetchCommitsInDateRange emptyRange ''2024-01-31'' ''2024-01-01'' = Inr []
   \<and> pipeline emptyRange [] ''2024-01-31'' ''2024-01-01'' None None =
       Inl (TypeError ''Cannot read properties of null (reading 'date')'')
   \<and> changelogJobs
        (generateChangelogAsync emptyRange 1706700000000 (boot []) ''1706659200000''
           ''2024-01-31'' ''2024-01-01'' None None) ''1706659200000'' =
       Some \<lparr>status = ''error'', completed = True, changelog = None,
             error = Some ''Failed to generate changelog''\<rparr>
   \<and> changelogs
        (generateChangelogAsync emptyRange 1706700000000 (boot []) ''1706659200000''
           ''2024-01-31'' ''2024-01-01'' None None) = []"
proof -
  have g: "\<exists>cl. generateChangelogFromCommits emptyRange [] = Inr cl"
    by (simp add: generateChangelogFromCommits_def emptyRange_def sampleEnv_def)
  have b: "changelogs (boot []) = []" by (simp add: boot_def)
  from empty_commit_set_ends_in_error[OF empty_fetch, of None None "boot []" 1706700000000
      "''1706659200000''"] g b
  show ?thesis using empty_fetch by simp
qed

text \<open>
  The claim as stated fails where the summarizer itself fails on the empty set: the
  pipeline then ends in the summarizer's rejection, and record assembly is not reached.
\<close>

theorem empty_commit_set_counterexample:
  "fetchCommitsInDateRange emptyRangeNoSummary ''2024-01-31'' ''2024-01-01'' = Inr []
   \<and> generateChangelogFromCommits emptyRangeNoSummary [] = Inl (Rejected ''429 Too Many Requests'')
   \<and> pipeline emptyRangeNoSummary [] ''2024-01-31'' ''2024-01-01'' None None =
       Inl (Rejected ''429 Too Many Requests'')
   \<and> pipeline emptyRangeNoSummary [] ''2024-01-31'' ''2024-01-01'' None None \<noteq>
       Inl (TypeError ''Cannot read properties of null (reading 'date')'')"
proof -
  have g: "generateChangelogFromCommits emptyRangeNoSummary [] = Inl (Rejected ''429 Too Many Requests'')"
    by (simp add: generateChangelogFromCommits_def emptyRangeNoSummary_def emptyRange_def
        sampleEnv_def)
  then have "pipeline emptyRangeNoSummary [] ''2024-01-31'' ''2024-01-01'' None None =
       Inl (Rejected ''429 Too Many Requests'')"
    using empty_fetch_no_summary by (simp add: pipeline_def)
  with g empty_fetch_no_summary show ?thesis by simp
qed

section \<open>Job ids\<close>

text \<open>The decimal rendering of a clock reading can be read back, so it is injective.\<close>

lemma small_cases: "(d::nat) < 10 \<Longrightarrow> d = 0 \<or> d = 1 \<or> d = 2 \<or> d = 3 \<or> d = 4 \<or> d = 5 \<or> d = 6 \<or> d = 7 \<or> d = 8 \<or> d = 9"
  by presburger

lemma of_char_digit:
  assumes "d < 10"
  shows "of_char (digit d) - 48 = (d::nat)"
proof -
  from small_cases[OF assms] show ?thesis
    by (elim disjE) (simp_all add: digit_def)
qed

lemma parseDigits_snoc: "parseDigits (s @ [c]) = 10 * parseDigits s + (of_char c - 48)"
  by (simp add: parseDigits_def)

lemma parseDigits_toString: "parseDigits (toString n) = n"
proof (induction n rule: toString.induct)
  case (1 n)
  show ?case
  proof (cases "n < 10")
    case True
    then have "toString n = [] @ [digit n]" by (simp add: toString.simps[of n])
    then have "parseDigits (toString n) = of_char (digit n) - 48"
      by (simp only: parseDigits_snoc) (simp add: parseDigits_def)
    with True show ?thesis by (simp add: of_char_digit)
  next
    case False
    with 1 have ih: "parseDigits (toString (n div 10)) = n div 10" by simp
    from False have "toString n = toString (n div 10) @ [digit (n mod 10)]"
      by (simp add: toString.simps[of n])
    then have "parseDigits (toString n) = 10 * (n div 10) + (of_char (digit (n mod 10)) - 48)"
      by (simp only: parseDigits_snoc ih)
    then show ?thesis by (simp add: of_char_digit)
  qed
qed

lemma toString_inj: "(toString a = toString b) = (a = b)"
proof
  assume "toString a = toString b"
  then have "parseDigits (toString a) = parseDigits (toString b)" by simp
  then show "a = b" by (simp only: parseDigits_toString)
qed simp

lemma toString_eval: "toString 1706659200000 = ''1706659200000''"
  by (simp add: toString.simps digit_def)

section \<open>Runs: what the job table can hold\<close>

lemma run_snoc: "run db (evs @ [ev]) = step (run db evs) ev"
  by (simp add: run_def)

lemma allocated_clock: "allocated evs = map toString (clock_readings evs)"
  by (induction evs rule: allocated.induct) auto

lemma clock_readings_append: "clock_readings (xs @ ys) = clock_readings xs @ clock_readings ys"
  by (induction xs rule: clock_readings.induct) auto

lemma allocated_append: "allocated (xs @ ys) = allocated xs @ allocated ys"
  by (simp add: allocated_clock clock_readings_append)

lemma step_Post_Some_jobs:
  "changelogJobs (step s (Post now (Some b))) = (changelogJobs s)(toString now \<mapsto> processingJob)"
  by (simp add: post_changelogs_def Let_def)

lemma step_Post_Some_running:
  "map t_jobId (running (step s (Post now (Some b)))) = map t_jobId (running s) @ [toString now]"
  by (simp add: post_changelogs_def Let_def)

lemma step_Post_None: "step s (Post now None) = s"
  by (simp add: post_changelogs_def)

lemma step_Status: "step s (Status j) = s"
  by (simp add: get_status_def split: option.splits)

lemma async_jobs:
  "\<exists>j. completed j \<and>
     changelogJobs (generateChangelogAsync e now s jobId sd ed v t) = (changelogJobs s)(jobId \<mapsto> j)"
proof (cases "pipeline e (changelogs s) sd ed v t")
  case (Inl x)
  then show ?thesis
    by (intro exI[of _ errorJob]) (simp add: generateChangelogAsync_def errorJob_def)
next
  case (Inr r)
  obtain i cl db' where "r = (i, cl, db')" by (cases r) auto
  with Inr show ?thesis
    by (intro exI[of _ "completedJob i now v t cl"])
       (simp add: generateChangelogAsync_def completedJob_def)
qed

lemma async_running: "running (generateChangelogAsync e now s jobId sd ed v t) = running s"
  by (cases "pipeline e (changelogs s) sd ed v t") (auto simp: generateChangelogAsync_def)

lemma step_Settle_jobs:
  assumes "i < length (running s)"
  shows "\<exists>j. completed j \<and>
     changelogJobs (step s (Settle i e now)) = (changelogJobs s)(t_jobId (running s ! i) \<mapsto> j)"
  using assms
    async_jobs[of e now "s\<lparr>running := take i (running s) @ drop (Suc i) (running s)\<rparr>"
      "t_jobId (running s ! i)"]
  by (simp add: Let_def)

lemma step_Settle_running:
  assumes "i < length (running s)"
  shows "running (step s (Settle i e now)) = take i (running s) @ drop (Suc i) (running s)"
  using assms by (simp add: Let_def async_running)

lemma step_Settle_none: "\<not> i < length (running s) \<Longrightarrow> step s (Settle i e now) = s"
  by simp

lemma ids_remove_subset:
  "f ` set (take i xs @ drop (Suc i) xs) \<subseteq> f ` set xs"
  by (auto dest: in_set_takeD in_set_dropD)


lemma ids_withinI:
  "dom (changelogJobs s) \<subseteq> A \<Longrightarrow> t_jobId ` set (running s) \<subseteq> A \<Longrightarrow> ids_within s A"
  by (simp add: ids_within_def)

lemma ids_withinD:
  "ids_within s A \<Longrightarrow> dom (changelogJobs s) \<subseteq> A"
  "ids_within s A \<Longrightarrow> t_jobId ` set (running s) \<subseteq> A"
  by (simp_all add: ids_within_def)

lemma ids_within_Post_Some:
  assumes "ids_within s A"
  shows "ids_within (step s (Post now (Some b))) (insert (toString now) A)"
proof (rule ids_withinI)
  have "dom (changelogJobs (step s (Post now (Some b)))) = insert (toString now) (dom (changelogJobs s))"
    by (simp only: step_Post_Some_jobs dom_fun_upd) simp
  then show "dom (changelogJobs (step s (Post now (Some b)))) \<subseteq> insert (toString now) A"
    using ids_withinD(1)[OF assms] by (simp only: insert_mono)
  have "set (map t_jobId (running (step s (Post now (Some b))))) =
      insert (toString now) (t_jobId ` set (running s))"
    by (simp only: step_Post_Some_running) simp
  then show "t_jobId ` set (running (step s (Post now (Some b)))) \<subseteq> insert (toString now) A"
    using ids_withinD(2)[OF assms] by (simp only: set_map insert_mono)
qed

lemma ids_within_Settle:
  assumes "ids_within s A"
  shows "ids_within (step s (Settle i e now)) A"
proof (cases "i < length (running s)")
  case True
  from step_Settle_jobs[OF True, of e now] obtain j where
    j: "changelogJobs (step s (Settle i e now)) =
          (changelogJobs s)(t_jobId (running s ! i) \<mapsto> j)" by blast
  have "running s ! i \<in> set (running s)" using True by (rule nth_mem)
  then have "t_jobId (running s ! i) \<in> t_jobId ` set (running s)" by (rule imageI)
  with ids_withinD(2)[OF assms] have mem: "t_jobId (running s ! i) \<in> A" by (rule subsetD)
  have "dom (changelogJobs (step s (Settle i e now))) =
      insert (t_jobId (running s ! i)) (dom (changelogJobs s))"
    by (simp only: j dom_fun_upd) simp
  then have d: "dom (changelogJobs (step s (Settle i e now))) \<subseteq> A"
    using ids_withinD(1)[OF assms] mem by (simp only: insert_subset)
  have "t_jobId ` set (running (step s (Settle i e now))) \<subseteq> t_jobId ` set (running s)"
    by (simp only: step_Settle_running[OF True] ids_remove_subset)
  then have r: "t_jobId ` set (running (step s (Settle i e now))) \<subseteq> A"
    using ids_withinD(2)[OF assms] by (rule subset_trans)
  from d r show ?thesis by (rule ids_withinI)
next
  case False
  then have "step s (Settle i e now) = s" by (rule step_Settle_none)
  with assms show ?thesis by (simp only:)
qed

lemma ids_within_mono:
  assumes "ids_within s A" and "A \<subseteq> B"
  shows "ids_within s B"
proof (rule ids_withinI)
  show "dom (changelogJobs s) \<subseteq> B"
    using ids_withinD(1)[OF assms(1)] assms(2) by (rule subset_trans)
  show "t_jobId ` set (running s) \<subseteq> B"
    using ids_withinD(2)[OF assms(1)] assms(2) by (rule subset_trans)
qed

declare step.simps [simp del]

lemma ids_within_step:
  assumes "ids_within s A"
  shows "ids_within (step s ev) (A \<union> set (allocated [ev]))"
proof (cases ev)
  case (Post now b)
  show ?thesis
  proof (cases b)
    case None
    have "step s ev = s" by (simp only: Post None step_Post_None)
    moreover have "A \<union> set (allocated [ev]) = A" by (simp add: Post None)
    ultimately show ?thesis using assms by (simp only:)
  next
    case (Some r)
    have "A \<union> set (allocated [ev]) = insert (toString now) A" by (simp add: Post Some)
    with ids_within_Post_Some[OF assms, of now r] show ?thesis by (simp only: Post Some)
  qed
next
  case (Settle i e now)
  have "A \<union> set (allocated [ev]) = A" by (simp add: Settle)
  with ids_within_Settle[OF assms, of i e now] show ?thesis by (simp only: Settle)
next
  case (Status j)
  have "step s ev = s" by (simp only: Status step_Status)
  moreover have "A \<union> set (allocated [ev]) = A" by (simp add: Status)
  ultimately show ?thesis using assms by (simp only:)
qed

lemma run_ids_allocated: "ids_within (run db evs) (set (allocated evs))"
proof (induction evs rule: rev_induct)
  case Nil
  show ?case by (simp add: run_def boot_def ids_within_def)
next
  case (snoc ev evs)
  have "set (allocated (evs @ [ev])) = set (allocated evs) \<union> set (allocated [ev])"
    by (simp only: allocated_append set_append)
  with ids_within_step[OF snoc, of ev] show ?case by (simp only: run_snoc)
qed

text \<open>
  Claim C7. In every run of the process, a job id that no accepted POST request has
  allocated has no entry in the job table, so the status request answers 404 with
  \<open>{error: 'Job not found'}\<close>; the request leaves the state as it was.
\<close>

theorem unknown_job_not_found:
  assumes "jobId \<notin> set (allocated evs)"
  shows "get_status (run db evs) jobId = (run db evs, (404, ErrorBody ''Job not found''))"
proof -
  have "jobId \<notin> dom (changelogJobs (run db evs))"
    using ids_withinD(1)[OF run_ids_allocated, of db evs] assms by (rule contra_subsetD)
  then have "changelogJobs (run db evs) jobId = None" by (simp only: domIff not_not)
  then show ?thesis by (simp add: get_status_def)
qed

theorem unknown_job_not_found_witness:
  "''does-not-exist'' \<notin> set (allocated [Post 1706659200000 (Some sampleBody)])
   \<and> snd (get_status (run [] [Post 1706659200000 (Some sampleBody)]) ''does-not-exist'') =
       (404, ErrorBody ''Job not found'')"
proof -
  have a: "''does-not-exist'' \<notin> set (allocated [Post 1706659200000 (Some sampleBody)])"
    by (simp add: toString_eval)
  from unknown_job_not_found[OF a, of "[]"]
  have "snd (get_status (run [] [Post 1706659200000 (Some sampleBody)]) ''does-not-exist'') =
       (404, ErrorBody ''Job not found'')"
    by (simp only: snd_conv)
  with a show ?thesis by (rule conjI)
qed



section \<open>Commit pagination\<close>






section \<open>One background call and one terminal write per job\<close>

lemma remove_nth_distinct:
  assumes "distinct ps" and "i < length ps"
  shows "distinct (take i ps @ drop (Suc i) ps)"
    and "set (take i ps @ drop (Suc i) ps) = set ps - {ps ! i}"
proof -
  have eq: "ps = take i ps @ ps ! i # drop (Suc i) ps"
    using assms(2) by (rule id_take_nth_drop)
  with assms(1) have d: "distinct (take i ps @ ps ! i # drop (Suc i) ps)" by simp
  then show "distinct (take i ps @ drop (Suc i) ps)" by simp
  from d have notin: "ps ! i \<notin> set (take i ps @ drop (Suc i) ps)" by simp
  have "set ps = insert (ps ! i) (set (take i ps @ drop (Suc i) ps))"
    by (subst eq) simp
  with notin show "set (take i ps @ drop (Suc i) ps) = set ps - {ps ! i}" by blast
qed

lemma accounted_post:
  assumes "k \<notin> set ps" and "k \<notin> A" and "\<forall>j \<in> A. accounted m ps j"
  shows "\<forall>j \<in> insert k A. accounted (m(k \<mapsto> processingJob)) (ps @ [k]) j"
  using assms by (auto simp: accounted_def)

lemma accounted_settle:
  assumes "distinct ps" and "i < length ps" and "completed job"
    and "ps ! i \<in> A" and "\<forall>j \<in> A. accounted m ps j"
  shows "\<forall>j \<in> A. accounted (m(ps ! i \<mapsto> job)) (take i ps @ drop (Suc i) ps) j"
proof
  fix j assume j: "j \<in> A"
  have rm: "(j \<in> set (take i ps @ drop (Suc i) ps)) = (j \<in> set ps \<and> j \<noteq> ps ! i)"
    using remove_nth_distinct(2)[OF assms(1,2)] by blast
  show "accounted (m(ps ! i \<mapsto> job)) (take i ps @ drop (Suc i) ps) j"
  proof (cases "j = ps ! i")
    case True
    then show ?thesis using assms(3) unfolding accounted_def rm by simp
  next
    case False
    with assms(5) j show ?thesis unfolding accounted_def rm by simp
  qed
qed

lemma accounted_terminal:
  assumes "accounted m ps j" and "m j = Some job" and "completed job"
  shows "j \<notin> set ps"
  using assms by (auto simp: accounted_def processingJob_def)

lemma pending_ids_Post:
  "pending_ids (step s (Post now (Some b))) = pending_ids s @ [toString now]"
  by (simp only: pending_ids_def step_Post_Some_running)

lemma pending_ids_Settle:
  assumes "i < length (running s)"
  shows "pending_ids (step s (Settle i e now)) = take i (pending_ids s) @ drop (Suc i) (pending_ids s)"
  by (simp only: pending_ids_def step_Settle_running[OF assms] map_append take_map drop_map)

lemma pending_ids_nth: "i < length (running s) \<Longrightarrow> t_jobId (running s ! i) = pending_ids s ! i"
  by (simp add: pending_ids_def)

lemma pending_ids_within: "ids_within s A \<Longrightarrow> set (pending_ids s) \<subseteq> A"
  by (simp add: pending_ids_def ids_within_def)

lemma one_task_eachI:
  "ids_within s A \<Longrightarrow> distinct (pending_ids s) \<Longrightarrow>
   \<forall>j \<in> A. accounted (changelogJobs s) (pending_ids s) j \<Longrightarrow> one_task_each s A"
  by (simp add: one_task_each_def)

lemma one_task_eachD:
  "one_task_each s A \<Longrightarrow> ids_within s A"
  "one_task_each s A \<Longrightarrow> distinct (pending_ids s)"
  "one_task_each s A \<Longrightarrow> \<forall>j \<in> A. accounted (changelogJobs s) (pending_ids s) j"
  by (simp_all add: one_task_each_def)

lemma one_task_each_Post:
  assumes inv: "one_task_each s A" and fresh: "toString now \<notin> A"
  shows "one_task_each (step s (Post now (Some b))) (insert (toString now) A)"
proof (rule one_task_eachI)
  note w = one_task_eachD(1)[OF inv]
  show "ids_within (step s (Post now (Some b))) (insert (toString now) A)"
    using w by (rule ids_within_Post_Some)
  have notp: "toString now \<notin> set (pending_ids s)"
    using pending_ids_within[OF w] fresh by (rule contra_subsetD)
  show "distinct (pending_ids (step s (Post now (Some b))))"
    using one_task_eachD(2)[OF inv] notp by (simp only: pending_ids_Post distinct_append) simp
  show "\<forall>j \<in> insert (toString now) A.
      accounted (changelogJobs (step s (Post now (Some b)))) (pending_ids (step s (Post now (Some b)))) j"
    using accounted_post[OF notp fresh one_task_eachD(3)[OF inv]]
    by (simp only: pending_ids_Post step_Post_Some_jobs)
qed

lemma one_task_each_Settle:
  assumes inv: "one_task_each s A"
  shows "one_task_each (step s (Settle i e now)) A"
proof (cases "i < length (running s)")
  case True
  note w = one_task_eachD(1)[OF inv]
  note d = one_task_eachD(2)[OF inv]
  have len: "i < length (pending_ids s)" using True by (simp add: pending_ids_def)
  from step_Settle_jobs[OF True, of e now] obtain job where
    c: "completed job" and
    j: "changelogJobs (step s (Settle i e now)) =
          (changelogJobs s)(t_jobId (running s ! i) \<mapsto> job)" by blast
  have j': "changelogJobs (step s (Settle i e now)) = (changelogJobs s)(pending_ids s ! i \<mapsto> job)"
    using j by (simp only: pending_ids_nth[OF True])
  have "pending_ids s ! i \<in> set (pending_ids s)" using len by (rule nth_mem)
  with pending_ids_within[OF w] have mem: "pending_ids s ! i \<in> A" by (rule subsetD)
  show ?thesis
  proof (rule one_task_eachI)
    show "ids_within (step s (Settle i e now)) A" using w by (rule ids_within_Settle)
    show "distinct (pending_ids (step s (Settle i e now)))"
      using remove_nth_distinct(1)[OF d len] by (simp only: pending_ids_Settle[OF True])
    show "\<forall>j \<in> A. accounted (changelogJobs (step s (Settle i e now)))
        (pending_ids (step s (Settle i e now))) j"
      using accounted_settle[OF d len c mem one_task_eachD(3)[OF inv]]
      by (simp only: pending_ids_Settle[OF True] j')
  qed
next
  case False
  then have "step s (Settle i e now) = s" by (rule step_Settle_none)
  with inv show ?thesis by (simp only:)
qed

lemma fresh_id: "now \<notin> set (clock_readings evs) \<Longrightarrow> toString now \<notin> set (allocated evs)"
  by (auto simp: allocated_clock toString_inj)

lemma distinct_allocated: "distinct (allocated evs) = distinct (clock_readings evs)"
  by (simp add: allocated_clock distinct_map inj_on_def toString_inj)

lemma run_one_task_each:
  assumes "distinct (clock_readings evs)"
  shows "one_task_each (run db evs) (set (allocated evs))"
  using assms
proof (induction evs rule: rev_induct)
  case Nil
  show ?case
    by (simp add: run_def boot_def one_task_each_def ids_within_def pending_ids_def)
next
  case (snoc ev evs)
  from snoc.prems have dc: "distinct (clock_readings evs)"
    by (simp add: clock_readings_append)
  note inv = snoc.IH[OF dc]
  show ?case
  proof (cases ev)
    case (Post now b)
    show ?thesis
    proof (cases b)
      case None
      have "run db (evs @ [ev]) = run db evs"
        by (simp only: run_snoc Post None step_Post_None)
      moreover have "allocated (evs @ [ev]) = allocated evs"
        by (simp add: allocated_append Post None)
      ultimately show ?thesis using inv by (simp only:)
    next
      case (Some r)
      from snoc.prems have "now \<notin> set (clock_readings evs)"
        by (simp add: clock_readings_append Post Some)
      then have fresh: "toString now \<notin> set (allocated evs)" by (rule fresh_id)
      have "set (allocated (evs @ [ev])) = insert (toString now) (set (allocated evs))"
        by (simp add: allocated_append Post Some)
      with one_task_each_Post[OF inv fresh, of r] show ?thesis
        by (simp only: run_snoc Post Some)
    qed
  next
    case (Settle i e now)
    have "allocated (evs @ [ev]) = allocated evs"
      by (simp add: allocated_append Settle)
    with one_task_each_Settle[OF inv, of i e now] show ?thesis
      by (simp only: run_snoc Settle)
  next
    case (Status j)
    have "run db (evs @ [ev]) = run db evs"
      by (simp only: run_snoc Status step_Status)
    moreover have "allocated (evs @ [ev]) = allocated evs"
      by (simp add: allocated_append Status)
    ultimately show ?thesis using inv by (simp only:)
  qed
qed

lemma terminal_kept_step:
  assumes inv: "one_task_each s A" and m: "changelogJobs s j = Some job" and c: "completed job"
    and fresh: "\<And>now b. ev = Post now (Some b) \<Longrightarrow> toString now \<notin> A"
  shows "changelogJobs (step s ev) j = Some job"
proof -
  from m have "j \<in> dom (changelogJobs s)" by (rule domI)
  with ids_withinD(1)[OF one_task_eachD(1)[OF inv]] have jA: "j \<in> A" by (rule subsetD)
  with one_task_eachD(3)[OF inv] have "accounted (changelogJobs s) (pending_ids s) j" by (rule bspec)
  then have np: "j \<notin> set (pending_ids s)" using m c by (rule accounted_terminal)
  show ?thesis
  proof (cases ev)
    case (Post now b)
    show ?thesis
    proof (cases b)
      case None
      then show ?thesis using m by (simp only: Post step_Post_None)
    next
      case (Some r)
      from fresh[of now r] Post Some have "toString now \<notin> A" by simp
      with jA have "j \<noteq> toString now" by (rule_tac notI) simp
      then show ?thesis using m by (simp add: Post Some step_Post_Some_jobs)
    qed
  next
    case (Settle i e now)
    show ?thesis
    proof (cases "i < length (running s)")
      case True
      from step_Settle_jobs[OF True, of e now] obtain job' where
        j: "changelogJobs (step s (Settle i e now)) =
              (changelogJobs s)(t_jobId (running s ! i) \<mapsto> job')" by blast
      have "pending_ids s ! i \<in> set (pending_ids s)"
        using True by (simp add: pending_ids_def)
      with np have "j \<noteq> pending_ids s ! i" by (rule_tac notI) simp
      then have "j \<noteq> t_jobId (running s ! i)" by (simp add: pending_ids_nth[OF True])
      then show ?thesis using m by (simp add: Settle j)
    next
      case False
      then have "step s (Settle i e now) = s" by (rule step_Settle_none)
      then show ?thesis using m by (simp only: Settle)
    qed
  next
    case (Status k)
    then show ?thesis using m by (simp only: step_Status)
  qed
qed

lemma one_with_id:
  "distinct (map f ts) \<Longrightarrow> j \<in> f ` set ts \<Longrightarrow> length (filter (\<lambda>t. f t = j) ts) = 1"
proof (induction ts)
  case Nil
  then show ?case by simp
next
  case (Cons a ts)
  show ?case
  proof (cases "f a = j")
    case True
    with Cons.prems(1) have "j \<notin> f ` set ts" by simp
    then have "\<forall>t \<in> set ts. f t \<noteq> j" by (auto simp: image_iff)
    then have "filter (\<lambda>t. f t = j) ts = []" by (simp add: filter_empty_conv)
    with True show ?thesis by simp
  next
    case False
    with Cons.prems have "distinct (map f ts)" "j \<in> f ` set ts" by auto
    with Cons.IH False show ?thesis by simp
  qed
qed

lemma terminal_kept_run:
  assumes "distinct (clock_readings (evs1 @ evs2))"
    and "changelogJobs (run db evs1) j = Some job" and "completed job"
  shows "changelogJobs (run db (evs1 @ evs2)) j = Some job"
  using assms(1)
proof (induction evs2 rule: rev_induct)
  case Nil
  show ?case using assms(2) by simp
next
  case (snoc ev evs)
  from snoc.prems have dc: "distinct (clock_readings (evs1 @ evs))"
    by (auto simp: clock_readings_append)
  note kept = snoc.IH[OF dc]
  note inv = run_one_task_each[OF dc, of db]
  have fresh: "\<And>now b. ev = Post now (Some b) \<Longrightarrow> toString now \<notin> set (allocated (evs1 @ evs))"
  proof -
    fix now b assume "ev = Post now (Some b)"
    with snoc.prems have "now \<notin> set (clock_readings (evs1 @ evs))"
      by (auto simp: clock_readings_append)
    then show "toString now \<notin> set (allocated (evs1 @ evs))" by (rule fresh_id)
  qed
  have "changelogJobs (step (run db (evs1 @ evs)) ev) j = Some job"
    using inv kept assms(3) fresh by (rule terminal_kept_step)
  then show ?case by (simp only: run_snoc append_assoc[symmetric])
qed

text \<open>
  Claim C4, as the code has it. The job id is the decimal rendering of the clock reading
  \<^verbatim>\<open>Date.now()\<close>, so two accepted requests get distinct ids exactly when their
  readings differ. In a run whose readings are pairwise distinct, the ids are pairwise
  distinct and the pending background calls have pairwise distinct ids; every allocated
  id either has its one background call pending, with the entry still \<open>processing\<close>,
  or has no pending call and a terminal entry (\<open>completed = true\<close>); and an entry that
  has become terminal is the same after any continuation of the run.
\<close>

theorem distinct_readings_one_task_one_transition:
  assumes "distinct (clock_readings evs)"
  shows "distinct (allocated evs)
     \<and> distinct (map t_jobId (running (run db evs)))
     \<and> (\<forall>j \<in> set (allocated evs).
           if j \<in> t_jobId ` set (running (run db evs))
           then length (filter (\<lambda>t. t_jobId t = j) (running (run db evs))) = 1
                \<and> changelogJobs (run db evs) j = Some processingJob
           else \<exists>job. changelogJobs (run db evs) j = Some job \<and> completed job)
     \<and> (\<forall>evs1 evs2 j job. evs = evs1 @ evs2 \<and> changelogJobs (run db evs1) j = Some job
           \<and> completed job \<longrightarrow> changelogJobs (run db evs) j = Some job)"
proof (intro conjI)
  note inv = run_one_task_each[OF assms, of db]
  show "distinct (allocated evs)" using assms by (simp only: distinct_allocated)
  show d: "distinct (map t_jobId (running (run db evs)))"
    using one_task_eachD(2)[OF inv] by (simp only: pending_ids_def)
  show "\<forall>j \<in> set (allocated evs).
           if j \<in> t_jobId ` set (running (run db evs))
           then length (filter (\<lambda>t. t_jobId t = j) (running (run db evs))) = 1
                \<and> changelogJobs (run db evs) j = Some processingJob
           else \<exists>job. changelogJobs (run db evs) j = Some job \<and> completed job"
  proof
    fix j assume "j \<in> set (allocated evs)"
    with one_task_eachD(3)[OF inv]
    have acc: "accounted (changelogJobs (run db evs)) (pending_ids (run db evs)) j" by (rule bspec)
    show "if j \<in> t_jobId ` set (running (run db evs))
           then length (filter (\<lambda>t. t_jobId t = j) (running (run db evs))) = 1
                \<and> changelogJobs (run db evs) j = Some processingJob
           else \<exists>job. changelogJobs (run db evs) j = Some job \<and> completed job"
    proof (cases "j \<in> t_jobId ` set (running (run db evs))")
      case True
      from one_with_id[OF d True] acc True show ?thesis
        by (simp add: accounted_def pending_ids_def)
    next
      case False
      with acc show ?thesis
        by (simp add: accounted_def pending_ids_def split: option.splits)
    qed
  qed
  show "\<forall>evs1 evs2 j job. evs = evs1 @ evs2 \<and> changelogJobs (run db evs1) j = Some job
           \<and> completed job \<longrightarrow> changelogJobs (run db evs) j = Some job"
    using assms terminal_kept_run by blast
qed

lemma throwing_pipeline:
  "pipeline throwingSource db ''2024-01-01'' ''2024-01-31'' v t = Inl (Rejected ''API rate limit exceeded'')"
  by (simp add: pipeline_def fetchCommitsInDateRange_def toISOString_def throwingSource_def
      sampleEnv_def sampleTime_def)

lemma sample_pipeline:
  "\<exists>d. pipeline sampleEnv db ''2024-01-01'' ''2024-01-31'' (Some ''1.2.0'') None =
         Inr (''doc1'', sampleDraft, db @ [(''doc1'', d)])"
proof -
  have "\<exists>d. storeChangelog sampleEnv db sampleDraft [a1, a2] (Some ''1.2.0'') None
          ''2024-01-01'' ''2024-01-31'' = Inr (''doc1'', db @ [(''doc1'', d)])"
    by (simp add: storeChangelog_def changelogDataOf_def mostRecentCommit_def later_def
        sampleEnv_def)
  then show ?thesis
    by (auto simp: pipeline_def sample_fetch sample_generate)
qed

lemma step_Settle_first:
  assumes "running s = t # ts"
  shows "step s (Settle 0 e now) =
     generateChangelogAsync e now (s\<lparr>running := ts\<rparr>)
       (t_jobId t) (t_startDate t) (t_endDate t) (t_version t) (t_title t)"
  using assms by (simp add: step.simps Let_def)

lemma async_error_jobs:
  "pipeline e (changelogs s) sd ed v t = Inl x \<Longrightarrow>
   changelogJobs (generateChangelogAsync e now s jobId sd ed v t) = (changelogJobs s)(jobId \<mapsto> errorJob)"
  by (simp add: generateChangelogAsync_def)

lemma async_completed_jobs:
  "pipeline e (changelogs s) sd ed v t = Inr (i, cl, db') \<Longrightarrow>
   changelogJobs (generateChangelogAsync e now s jobId sd ed v t) =
     (changelogJobs s)(jobId \<mapsto> completedJob i now v t cl)"
  by (simp add: generateChangelogAsync_def)

lemma twice_running:
  "running (run [] [Post 1706659200000 (Some sampleBody), Post 1706659200000 (Some sampleBody)]) =
     [sampleTask, sampleTask]"
  by (simp add: run_def step.simps post_changelogs_def boot_def Let_def sampleBody_def sampleTask_def)

text \<open>
  Two requests accepted at the same clock reading get the same id: the table holds one
  entry for two background calls, and that entry is written to a terminal state twice,
  here \<open>completed\<close> and then \<open>error\<close>.
\<close>

theorem same_millisecond_counterexample:
  "\<not> distinct (allocated [Post 1706659200000 (Some sampleBody), Post 1706659200000 (Some sampleBody)])
   \<and> map t_jobId (running (run []
         [Post 1706659200000 (Some sampleBody), Post 1706659200000 (Some sampleBody)])) =
       [toString 1706659200000, toString 1706659200000]
   \<and> map_option status (changelogJobs (run []
         [Post 1706659200000 (Some sampleBody), Post 1706659200000 (Some sampleBody),
          Settle 0 sampleEnv 1706659260000]) (toString 1706659200000)) = Some ''completed''
   \<and> map_option status (changelogJobs (run []
         [Post 1706659200000 (Some sampleBody), Post 1706659200000 (Some sampleBody),
          Settle 0 sampleEnv 1706659260000, Settle 0 throwingSource 1706659270000])
         (toString 1706659200000)) = Some ''error''"
proof -
  let ?P = "Post 1706659200000 (Some sampleBody)"
  let ?s2 = "run [] [?P, ?P]"
  let ?s3 = "step ?s2 (Settle 0 sampleEnv 1706659260000)"
  let ?s4 = "step ?s3 (Settle 0 throwingSource 1706659270000)"
  have r3: "run [] [?P, ?P, Settle 0 sampleEnv 1706659260000] = ?s3"
    by (simp add: run_def)
  have r4: "run [] [?P, ?P, Settle 0 sampleEnv 1706659260000,
      Settle 0 throwingSource 1706659270000] = ?s4"
    by (simp add: run_def)
  have c1: "\<not> distinct (allocated [?P, ?P])" by simp
  have c2: "map t_jobId (running ?s2) = [toString 1706659200000, toString 1706659200000]"
    by (simp only: twice_running) (simp add: sampleTask_def)
  have e3: "?s3 = generateChangelogAsync sampleEnv 1706659260000 (?s2\<lparr>running := [sampleTask]\<rparr>)
      (toString 1706659200000) ''2024-01-01'' ''2024-01-31'' (Some ''1.2.0'') None"
    using step_Settle_first[OF twice_running, of sampleEnv 1706659260000]
    by (simp add: sampleTask_def)
  obtain d where "pipeline sampleEnv (changelogs (?s2\<lparr>running := [sampleTask]\<rparr>))
      ''2024-01-01'' ''2024-01-31'' (Some ''1.2.0'') None =
      Inr (''doc1'', sampleDraft, changelogs (?s2\<lparr>running := [sampleTask]\<rparr>) @ [(''doc1'', d)])"
    using sample_pipeline by blast
  from async_completed_jobs[OF this, of 1706659260000 "toString 1706659200000"]
  have j3: "changelogJobs ?s3 (toString 1706659200000) =
      Some (completedJob ''doc1'' 1706659260000 (Some ''1.2.0'') None sampleDraft)"
    by (simp only: e3) simp
  then have c3: "map_option status (changelogJobs ?s3 (toString 1706659200000)) = Some ''completed''"
    by (simp add: completedJob_def)
  have run3: "running ?s3 = [sampleTask]"
    by (simp only: e3 async_running) simp
  have e4: "?s4 = generateChangelogAsync throwingSource 1706659270000 (?s3\<lparr>running := []\<rparr>)
      (toString 1706659200000) ''2024-01-01'' ''2024-01-31'' (Some ''1.2.0'') None"
    using step_Settle_first[OF run3, of throwingSource 1706659270000]
    by (simp add: sampleTask_def)
  from async_error_jobs[OF throwing_pipeline, of 1706659270000 "?s3\<lparr>running := []\<rparr>"
      "toString 1706659200000" "Some ''1.2.0''" None]
  have "changelogJobs ?s4 (toString 1706659200000) = Some errorJob"
    by (simp only: e4) simp
  then have c4: "map_option status (changelogJobs ?s4 (toString 1706659200000)) = Some ''error''"
    by (simp add: errorJob_def)
  from c1 c2 c3 c4 show ?thesis by (simp only: r3 r4) simp
qed

theorem distinct_readings_one_task_one_transition_witness:
  "distinct (clock_readings [Post 1706659200000 (Some sampleBody), Post 1706659200001 (Some sampleBody),
      Settle 0 throwingSource 1706659270000])
   \<and> distinct (allocated [Post 1706659200000 (Some sampleBody), Post 1706659200001 (Some sampleBody),
      Settle 0 throwingSource 1706659270000])
   \<and> map t_jobId (running (run [] [Post 1706659200000 (Some sampleBody),
      Post 1706659200001 (Some sampleBody), Settle 0 throwingSource 1706659270000])) =
       [toString 1706659200001]
   \<and> changelogJobs (run [] [Post 1706659200000 (Some sampleBody),
      Post 1706659200001 (Some sampleBody), Settle 0 throwingSource 1706659270000])
       (toString 1706659200001) = Some processingJob"
proof -
  let ?P1 = "Post 1706659200000 (Some sampleBody)"
  let ?P2 = "Post 1706659200001 (Some sampleBody)"
  let ?S = "Settle 0 throwingSource 1706659270000"
  let ?evs = "[?P1, ?P2, ?S]"
  let ?s2 = "step (step (boot []) ?P1) ?P2"
  have r: "run [] ?evs = step ?s2 ?S" by (simp add: run_def)
  have dc: "distinct (clock_readings ?evs)" by simp
  note t = distinct_readings_one_task_one_transition[OF dc, of "[]"]
  have p2: "pending_ids ?s2 = [toString 1706659200000, toString 1706659200001]"
    by (simp only: pending_ids_Post) (simp add: pending_ids_def boot_def)
  then have "length (map t_jobId (running ?s2)) = 2" by (simp add: pending_ids_def)
  then have len: "0 < length (running ?s2)" by simp
  have p3: "pending_ids (step ?s2 ?S) = [toString 1706659200001]"
    by (simp only: pending_ids_Settle[OF len] p2) simp
  then have ids: "map t_jobId (running (run [] ?evs)) = [toString 1706659200001]"
    by (simp only: r pending_ids_def)
  then have mem: "toString 1706659200001 \<in> t_jobId ` set (running (run [] ?evs))"
    by (simp only: set_map[symmetric]) simp
  have al: "toString 1706659200001 \<in> set (allocated ?evs)" by simp
  from t[THEN conjunct2, THEN conjunct2, THEN conjunct1, THEN bspec, OF al]
  have "changelogJobs (run [] ?evs) (toString 1706659200001) = Some processingJob"
    by (simp only: mem if_True)
  with dc t[THEN conjunct1] ids show ?thesis by (intro conjI)
qed

end
